theory Spec2Isabelle
  imports Complex_Main "HOL-Library.Multiset"
begin

section \<open>JavaScript values used by \<open>Slot.ts\<close>\<close>

text \<open>
  A JavaScript array of strings is a list.  Reading an array outside its bounds, or with
  the key \<open>undefined\<close>, yields \<open>undefined\<close>; this is \<open>None\<close> below.  An array whose
  elements may themselves be \<open>undefined\<close> is an \<open>option list\<close>.
\<close>

definition arr_get :: "'a list \<Rightarrow> int \<Rightarrow> 'a option" where
  \<comment> \<open>\<open>array[i]\<close> on an array without holes\<close>
  "arr_get xs i = (if 0 \<le> i \<and> i < int (length xs) then Some (xs ! nat i) else None)"

definition uarr_get :: "'a option list \<Rightarrow> int \<Rightarrow> 'a option" where
  \<comment> \<open>\<open>array[i]\<close> on an array that may hold \<open>undefined\<close>\<close>
  "uarr_get xs i = (if 0 \<le> i \<and> i < int (length xs) then xs ! nat i else None)"

definition uarr_set :: "'a option list \<Rightarrow> int \<Rightarrow> 'a option \<Rightarrow> 'a option list" where
  \<comment> \<open>\<open>array[i] = v\<close>: inside the bounds the element is replaced, beyond them the array is
      extended with holes, and a negative number names a property, not an element\<close>
  "uarr_set xs i v =
     (if i < 0 then xs
      else if nat i < length xs then xs[nat i := v]
      else xs @ replicate (nat i - length xs) None @ [v])"

definition js_trunc :: "real \<Rightarrow> int" where
  \<comment> \<open>the integer part of a number, rounding towards zero\<close>
  "js_trunc x = (if 0 \<le> x then \<lfloor>x\<rfloor> else \<lceil>x\<rceil>)"

definition to_int32 :: "real \<Rightarrow> int" where
  \<comment> \<open>\<open>x | 0\<close>: the integer part of \<open>x\<close>, wrapped into the signed 32-bit range\<close>
  "to_int32 x = (js_trunc x + 2 ^ 31) mod 2 ^ 32 - 2 ^ 31"

definition js_slice0 :: "'a list \<Rightarrow> int \<Rightarrow> 'a list" where
  \<comment> \<open>\<open>array.slice(0, e)\<close>: a negative end counts from the end of the array\<close>
  "js_slice0 xs e =
     (if e < 0 then take (nat (max (int (length xs) + e) 0)) xs
      else take (nat (min e (int (length xs)))) xs)"

definition js_splice1 :: "'a list \<Rightarrow> int \<Rightarrow> 'a list" where
  \<comment> \<open>\<open>array.splice(start, 1)\<close>: a negative start counts from the end of the array; the
      element at that position, when there is one, is removed\<close>
  "js_splice1 xs start =
     (let len = int (length xs);
          st = (if start < 0 then max (len + start) 0 else min start len)
      in take (nat st) xs @ drop (nat st + 1) xs)"

fun findIndex :: "('a \<Rightarrow> bool) \<Rightarrow> 'a list \<Rightarrow> int" where
  \<comment> \<open>\<open>array.findIndex(p)\<close>: the first index whose element satisfies \<open>p\<close>, or \<open>-1\<close>\<close>
  "findIndex p [] = -1"
| "findIndex p (x # xs) =
     (if p x then 0 else (let r = findIndex p xs in if r < 0 then -1 else r + 1))"

definition to_str :: "string option \<Rightarrow> string" where
  \<comment> \<open>the string a template literal or \<open>innerHTML\<close> makes of a value\<close>
  "to_str v = (case v of None \<Rightarrow> ''undefined'' | Some s \<Rightarrow> s)"


section \<open>\<open>shuffleNames\<close>\<close>

text \<open>
  \<open>Math.random()\<close> is a stream of numbers: \<open>rnd k\<close> is the value of the \<open>k\<close>-th call made
  by one run of \<open>shuffleNames\<close>, which calls it once per iteration, so \<open>k\<close> is the loop
  counter of the source.  The language promises \<open>0 \<le> rnd k < 1\<close>; the product
  \<open>Math.random() * n\<close> is taken exactly.

  \<open>keys\<close> is the array \<open>Object.keys(array)\<close> of the indices of \<open>array\<close>; \<open>n\<close> is positive
  inside the loop, so it is a natural number.  The loop writes to \<open>keys\<close> and \<open>result\<close>
  only: \<open>array\<close> is read, never assigned.
\<close>

function shuffle_loop ::
  "(nat \<Rightarrow> real) \<Rightarrow> 'a list \<Rightarrow> nat option list \<Rightarrow> 'a option list \<Rightarrow> nat \<Rightarrow> nat \<Rightarrow> 'a option list"
where
  "shuffle_loop rnd array keys result k n =
     (if k < length array \<and> 0 < n then
        let i = to_int32 (rnd k * real n);
            key = uarr_get keys i;
            result' = result @ [case key of None \<Rightarrow> None | Some j \<Rightarrow> arr_get array (int j)];
            n' = n - 1;
            tmp = uarr_get keys (int n');
            keys' = uarr_set keys (int n') key;
            keys'' = uarr_set keys' i tmp
        in shuffle_loop rnd array keys'' result' (k + 1) n'
      else result)"
  by pat_completeness auto
termination
  by (relation "measure (\<lambda>(rnd, array, keys, result, k, n). length array - k)") auto

declare shuffle_loop.simps [simp del]

definition shuffleNames :: "(nat \<Rightarrow> real) \<Rightarrow> 'a list \<Rightarrow> 'a option list" where
  "shuffleNames rnd array =
     shuffle_loop rnd array (map Some [0..<length array]) [] 0 (length array)"


definition rnd_ok :: "(nat \<Rightarrow> real) \<Rightarrow> bool" where
  \<comment> \<open>what the language promises of \<open>Math.random()\<close>\<close>
  "rnd_ok rnd = (\<forall>k. 0 \<le> rnd k \<and> rnd k < 1)"

definition draw :: "(nat \<Rightarrow> real) \<Rightarrow> nat \<Rightarrow> nat \<Rightarrow> nat" where
  \<comment> \<open>the index in \<open>[0, n)\<close> that the \<open>k\<close>-th random number selects\<close>
  "draw rnd k n = nat \<lfloor>rnd k * real n\<rfloor>"


section \<open>The reference shuffle of the specification\<close>

text \<open>
  The in-place Fisher--Yates shuffle as the specification words it: over a working copy,
  from the last index down to the first, the element at the current index \<open>c\<close> is swapped
  with the element at a random index of \<open>[0, c]\<close>.  The \<open>k\<close>-th step uses the \<open>k\<close>-th
  random number, scaled by the size \<open>c + 1\<close> of the range.
\<close>

definition swap :: "'a list \<Rightarrow> nat \<Rightarrow> nat \<Rightarrow> 'a list" where
  "swap xs i j = xs[i := xs ! j, j := xs ! i]"

fun fisher_yates_from :: "(nat \<Rightarrow> real) \<Rightarrow> 'a list \<Rightarrow> nat \<Rightarrow> nat \<Rightarrow> 'a list" where
  "fisher_yates_from rnd a k 0 = a"
| "fisher_yates_from rnd a k (Suc c) =
     fisher_yates_from rnd (swap a c (draw rnd k (Suc c))) (Suc k) c"

definition fisher_yates :: "(nat \<Rightarrow> real) \<Rightarrow> 'a list \<Rightarrow> 'a list" where
  "fisher_yates rnd xs = fisher_yates_from rnd xs 0 (length xs)"


section \<open>The class \<open>Slot\<close>\<close>

text \<open>
  The fields of the class, in the order of the source.  The reel container is the list of
  the texts of its child elements, or \<open>None\<close> when \<open>document.querySelector\<close> found no
  element.  The animation object is represented by its play state (\<open>cancel\<close> makes it
  idle, \<open>play\<close> running, \<open>finish\<close> finished); it is \<open>None\<close> when there is no container
  to animate.  A callback is represented by whether it was configured, and \<open>hookLog\<close>
  records the callbacks the engine has called, in order; the callbacks themselves belong
  to the host and do not call back into the engine.  The calls into the DOM are
  represented by what they do to the container and to the animation.  \<open>animate\<close> raises
  a TypeError when the duration it is given is negative; the other calls return
  normally.  The arrays of names, prizes and winners are separate objects, as the
  host creates them.  \<open>maxReelItems\<close> is a whole number, of either sign.
\<close>

datatype play_state = Idle | Running | Finished

datatype hook = SpinStart | SpinEnd | NameListChanged

datatype js_error = TypeError

record slot =
  nameList :: "string list"
  prizeList :: "string list"
  winnerList :: "string list"
  randomNames :: "string option list"
  havePreviousWinner :: bool
  reelContainer :: "string list option"
  maxReelItems :: int
  shouldRemoveWinner :: bool
  reelAnimation :: "play_state option"
  onSpinStart :: bool
  onSpinEnd :: bool
  onNameListChanged :: bool
  hookLog :: "hook list"

record slot_configurations =
  cfg_maxReelItems :: "int option"
  cfg_removeWinner :: "bool option"
  cfg_reelContainer :: "string list option"
  cfg_onSpinStart :: bool
  cfg_onSpinEnd :: bool
  cfg_onNameListChanged :: bool

definition call_hook :: "bool \<Rightarrow> hook \<Rightarrow> slot \<Rightarrow> slot" where
  \<comment> \<open>\<open>if (this.onX) { this.onX(); }\<close>\<close>
  "call_hook configured h s = (if configured then s\<lparr>hookLog := hookLog s @ [h]\<rparr> else s)"

definition constructed :: "slot_configurations \<Rightarrow> slot" where
  \<comment> \<open>the object a completed run of the constructor leaves: \<open>maxReelItems\<close> defaults to 30
      and \<open>removeWinner\<close> to true; the animation, created on the container, has been
      cancelled\<close>
  "constructed c =
     \<lparr> nameList = [], prizeList = [], winnerList = [], randomNames = [],
       havePreviousWinner = False,
       reelContainer = cfg_reelContainer c,
       maxReelItems = (case cfg_maxReelItems c of None \<Rightarrow> 30 | Some m \<Rightarrow> m),
       shouldRemoveWinner = (case cfg_removeWinner c of None \<Rightarrow> True | Some b \<Rightarrow> b),
       reelAnimation = (case cfg_reelContainer c of None \<Rightarrow> None | Some children \<Rightarrow> Some Idle),
       onSpinStart = cfg_onSpinStart c,
       onSpinEnd = cfg_onSpinEnd c,
       onNameListChanged = cfg_onNameListChanged c,
       hookLog = [] \<rparr>"

definition animate :: "int \<Rightarrow> js_error + play_state" where
  \<comment> \<open>\<open>element.animate(keyframes, {duration, ...})\<close>: a running animation, or a TypeError
      for a negative duration\<close>
  "animate duration = (if duration < 0 then Inl TypeError else Inr Running)"

definition Slot_constructor :: "slot_configurations \<Rightarrow> js_error + slot" where
  \<comment> \<open>\<open>this.reelContainer?.animate(..., {duration: this.maxReelItems * 50, ...})\<close> is called
      only on an existing container; what it raises ends the construction\<close>
  "Slot_constructor c =
     (case cfg_reelContainer c of
        None \<Rightarrow> Inr (constructed c)
      | Some children \<Rightarrow>
          (case animate (maxReelItems (constructed c) * 50) of
             Inl e \<Rightarrow> Inl e
           | Inr anim \<Rightarrow> Inr (constructed c)))"

definition set_names :: "string list \<Rightarrow> slot \<Rightarrow> slot" where
  "set_names names s =
     (let s1 = s\<lparr>nameList := names\<rparr>;
          s2 = s1\<lparr>reelContainer := map_option (\<lambda>children. []) (reelContainer s1)\<rparr>;
          s3 = s2\<lparr>havePreviousWinner := False\<rparr>
      in call_hook (onNameListChanged s3) NameListChanged s3)"

definition set_prizes :: "string list \<Rightarrow> slot \<Rightarrow> slot" where
  "set_prizes prizes s = s\<lparr>prizeList := prizes\<rparr>"

definition addWinner :: "string option \<Rightarrow> string \<Rightarrow> slot \<Rightarrow> slot" where
  "addWinner name prize s = s\<lparr>winnerList := winnerList s @ [prize @ '' - '' @ to_str name]\<rparr>"

definition getActivePrizeToDraw :: "slot \<Rightarrow> string" where
  "getActivePrizeToDraw s =
     (if int (length (prizeList s)) \<le> 0 then ''-------'' else prizeList s ! 0)"

function repeat_names :: "int \<Rightarrow> 'a list \<Rightarrow> 'a list" where
  \<comment> \<open>\<open>while (names.length && names.length < maxReelItems) names = [...names, ...names]\<close>\<close>
  "repeat_names m xs =
     (if length xs \<noteq> 0 \<and> int (length xs) < m then repeat_names m (xs @ xs) else xs)"
  by pat_completeness auto
termination
  by (relation "measure (\<lambda>(m, xs). nat (m - int (length xs)))") auto

declare repeat_names.simps [simp del]

definition collapse_reel :: "string list \<Rightarrow> string list" where
  \<comment> \<open>the children \<open>slice(0, children.length - 1)\<close> are removed from the container\<close>
  "collapse_reel children =
     drop (length (js_slice0 children (int (length children) - 1))) children"

text \<open>
  \<open>spin\<close> is an \<open>async\<close> function.  It runs without interruption up to
  \<open>await animationPromise\<close> (\<open>spin_start\<close>), and resumes when the animation has finished
  (\<open>spin_finish\<close>).  \<open>spin\<close> is the run in which the animation finishes and no other call
  on the engine is made in between.
\<close>

datatype spin_progress = Failed slot | Awaiting slot

definition state_of :: "spin_progress \<Rightarrow> slot" where
  \<comment> \<open>the engine as \<open>spin\<close> leaves it when it returns false or suspends\<close>
  "state_of p = (case p of Failed s \<Rightarrow> s | Awaiting s \<Rightarrow> s)"

definition spin_start :: "(nat \<Rightarrow> real) \<Rightarrow> slot \<Rightarrow> spin_progress" where
  "spin_start rnd s =
     (if length (nameList s) = 0 then Failed s
      else
        let s1 = call_hook (onSpinStart s) SpinStart s;
            shouldRemove = shouldRemoveWinner s1
        in case (reelContainer s1, reelAnimation s1) of
             (Some children, Some anim) \<Rightarrow>
               let s2 = s1\<lparr>randomNames := shuffleNames rnd (nameList s1)\<rparr>;
                   s3 = s2\<lparr>randomNames := repeat_names (maxReelItems s2) (randomNames s2)\<rparr>;
                   s4 = s3\<lparr>randomNames := js_slice0 (randomNames s3)
                          (maxReelItems s3 - (if havePreviousWinner s3 then 1 else 0))\<rparr>;
                   s5 = s4\<lparr>reelContainer := Some (children @ map to_str (randomNames s4))\<rparr>;
                   winner = uarr_get (randomNames s5) (int (length (randomNames s5)) - 1);
                   s6 = addWinner winner (getActivePrizeToDraw s5) s5;
                   s7 = (if shouldRemove
                         then s6\<lparr>nameList := js_splice1 (nameList s6)
                                (findIndex (\<lambda>name. Some name = winner) (nameList s6))\<rparr>
                         else s6);
                   s8 = s7\<lparr>prizeList := js_splice1 (prizeList s7) 0\<rparr>;
                   s9 = s8\<lparr>reelAnimation := Some Running\<rparr>
               in Awaiting s9
           | _ \<Rightarrow> Failed s1)"

definition spin_finish :: "slot \<Rightarrow> bool \<times> slot" where
  "spin_finish s =
     (let s1 = s\<lparr>reelAnimation := map_option (\<lambda>anim. Finished) (reelAnimation s)\<rparr>;
          s2 = s1\<lparr>reelContainer := map_option collapse_reel (reelContainer s1)\<rparr>;
          s3 = s2\<lparr>havePreviousWinner := True\<rparr>
      in (True, call_hook (onSpinEnd s3) SpinEnd s3))"

definition spin :: "(nat \<Rightarrow> real) \<Rightarrow> slot \<Rightarrow> bool \<times> slot" where
  "spin rnd s = (case spin_start rnd s of Failed s' \<Rightarrow> (False, s') | Awaiting s' \<Rightarrow> spin_finish s')"

definition populated :: "(nat \<Rightarrow> real) \<Rightarrow> slot \<Rightarrow> string option list" where
  \<comment> \<open>the reel sequence a spin leaves in \<open>randomNames\<close>\<close>
  "populated rnd s = randomNames (snd (spin rnd s))"

definition forceStopSpin :: "slot \<Rightarrow> js_error + bool \<times> slot" where
  \<comment> \<open>\<open>reelContainer!.children\<close> raises a TypeError when there is no container\<close>
  "forceStopSpin s =
     (let s1 = s\<lparr>reelAnimation := map_option (\<lambda>anim. Finished) (reelAnimation s)\<rparr>
      in case reelContainer s1 of
           None \<Rightarrow> Inl TypeError
         | Some children \<Rightarrow>
             let s2 = s1\<lparr>reelContainer := Some (collapse_reel children)\<rparr>;
                 s3 = s2\<lparr>havePreviousWinner := True\<rparr>
             in Inr (True, call_hook (onSpinEnd s3) SpinEnd s3))"

text \<open>
  The run of \<open>spin\<close> that a forced stop ends: \<open>forceStopSpin\<close> is called while \<open>spin\<close> is
  suspended, and its \<open>finish()\<close> fires the event that \<open>spin\<close> awaits, so that \<open>spin\<close>
  resumes on the state the forced stop has left.
\<close>

definition spin_forced :: "(nat \<Rightarrow> real) \<Rightarrow> slot \<Rightarrow> js_error + bool \<times> slot" where
  "spin_forced rnd s =
     (case spin_start rnd s of
        Failed s' \<Rightarrow> Inr (False, s')
      | Awaiting s1 \<Rightarrow>
          (case forceStopSpin s1 of
             Inl e \<Rightarrow> Inl e
           | Inr (b, s2) \<Rightarrow> Inr (spin_finish s2)))"


section \<open>Sample runs\<close>

text \<open>
  A random source that always returns the same number, and the engine as the host sets it
  up: constructed on an empty reel container with all three callbacks, then given its
  names and prizes through the setters.  The constructor returns this object whenever
  \<open>maxReelItems\<close> is not negative.
\<close>

definition constant_rnd :: "real \<Rightarrow> nat \<Rightarrow> real" where
  "constant_rnd r k = r"

definition host_config :: "int \<Rightarrow> bool \<Rightarrow> slot_configurations" where
  "host_config m r =
     \<lparr> cfg_maxReelItems = Some m, cfg_removeWinner = Some r, cfg_reelContainer = Some [],
       cfg_onSpinStart = True, cfg_onSpinEnd = True, cfg_onNameListChanged = True \<rparr>"

definition engine :: "int \<Rightarrow> bool \<Rightarrow> string list \<Rightarrow> string list \<Rightarrow> slot" where
  "engine m r names prizes = set_prizes prizes (set_names names (constructed (host_config m r)))"


section \<open>The random index\<close>

lemma floor_draw:
  assumes "0 \<le> r" "r < 1" "0 < n"
  shows "0 \<le> \<lfloor>r * real n\<rfloor>" "\<lfloor>r * real n\<rfloor> < int n"
proof -
  have a: "0 \<le> r * real n" using assms by simp
  have b: "r * real n < real n" using assms by simp
  show "0 \<le> \<lfloor>r * real n\<rfloor>" using a by simp
  show "\<lfloor>r * real n\<rfloor> < int n" using b by (simp add: floor_less_iff)
qed

lemma draw_less: "rnd_ok rnd \<Longrightarrow> 0 < n \<Longrightarrow> draw rnd k n < n"
  using floor_draw[of "rnd k" n] by (simp add: rnd_ok_def draw_def)

lemma to_int32_draw:
  assumes "rnd_ok rnd" "0 < n" "n < 2 ^ 31"
  shows "to_int32 (rnd k * real n) = int (draw rnd k n)"
proof -
  have r: "0 \<le> rnd k" "rnd k < 1" using assms(1) by (simp_all add: rnd_ok_def)
  have 1: "0 \<le> \<lfloor>rnd k * real n\<rfloor>" and 2: "\<lfloor>rnd k * real n\<rfloor> < int n"
    using floor_draw[OF r assms(2)] by simp_all
  have "int n < 2 ^ 31" using assms(3) by (metis of_nat_less_iff of_nat_numeral of_nat_power)
  then have 3: "\<lfloor>rnd k * real n\<rfloor> < 2 ^ 31" using 2 by linarith
  have "0 \<le> rnd k * real n" using r by simp
  then have "to_int32 (rnd k * real n) = \<lfloor>rnd k * real n\<rfloor>"
    using 1 3 by (simp add: to_int32_def js_trunc_def)
  then show ?thesis using 1 by (simp add: draw_def)
qed

lemma shuffle_loop_step:
  assumes ok: "rnd_ok rnd" and big: "length array < 2 ^ 31"
    and n: "Suc n \<le> length ks" and kn: "k + Suc n = length array"
    and rng: "\<forall>j<Suc n. ks ! j < length array"
  shows "shuffle_loop rnd array (map Some ks) (map Some res) k (Suc n) =
         shuffle_loop rnd array
           (map Some (ks[n := ks ! draw rnd k (Suc n), draw rnd k (Suc n) := ks ! n]))
           (map Some (res @ [array ! (ks ! draw rnd k (Suc n))])) (Suc k) n"
proof -
  let ?i = "draw rnd k (Suc n)"
  have i: "?i < Suc n" using draw_less[OF ok] by simp
  have n31: "Suc n < 2 ^ 31" using kn big by linarith
  have t: "to_int32 (rnd k * real (Suc n)) = int ?i" using to_int32_draw[OF ok _ n31] by simp
  have key: "uarr_get (map Some ks) (int ?i) = Some (ks ! ?i)"
    using i n by (simp add: uarr_get_def)
  have el: "arr_get array (int (ks ! ?i)) = Some (array ! (ks ! ?i))"
    using rng i by (simp add: arr_get_def)
  have tmp: "uarr_get (map Some ks) (int n) = Some (ks ! n)"
    using n by (simp add: uarr_get_def)
  have k1: "uarr_set (map Some ks) (int n) (Some (ks ! ?i)) = map Some (ks[n := ks ! ?i])"
    using n by (simp add: uarr_set_def map_update)
  have k2: "uarr_set (map Some (ks[n := ks ! ?i])) (int ?i) (Some (ks ! n))
            = map Some (ks[n := ks ! ?i, ?i := ks ! n])"
    using n i by (simp add: uarr_set_def map_update)
  have c: "k < length array" using kn by linarith
  have "shuffle_loop rnd array (map Some ks) (map Some res) k (Suc n) =
        shuffle_loop rnd array (uarr_set (uarr_set (map Some ks) (int n) (Some (ks ! ?i))) (int ?i) (Some (ks ! n)))
          (map Some res @ [Some (array ! (ks ! ?i))]) (k + 1) n"
    by (subst shuffle_loop.simps) (simp only: c t key el tmp Let_def diff_Suc_1 zero_less_Suc simp_thms if_True option.case)
  then show ?thesis by (simp only: k1 k2) simp
qed

lemma mset_take_swap:
  assumes "Suc m \<le> length ks" "i < Suc m"
  shows "add_mset (ks ! i) (mset (take m (ks[m := ks ! i, i := ks ! m])))
         = mset (take (Suc m) ks)"
proof -
  have tk: "take (Suc m) ks = take m ks @ [ks ! m]" using assms(1) by (simp add: take_Suc_conv_app_nth)
  show ?thesis
  proof (cases "i = m")
    case True
    then show ?thesis using tk by simp
  next
    case False
    then have im: "i < m" using assms(2) by simp
    have "take m (ks[m := ks ! i, i := ks ! m]) = (take m ks)[i := ks ! m]"
      by (simp add: take_update_swap list_update_beyond)
    moreover have "mset ((take m ks)[i := ks ! m]) = add_mset (ks ! m) (mset (take m ks) - {#ks ! i#})"
      using im assms(1) by (simp add: mset_update)
    moreover have "take m ks ! i \<in> set (take m ks)"
      using im assms(1) by (intro nth_mem) simp
    then have "ks ! i \<in># mset (take m ks)" using im by simp
    ultimately show ?thesis using tk by simp
  qed
qed

lemma shuffle_loop_perm:
  assumes ok: "rnd_ok rnd" and big: "length array < 2 ^ 31"
  shows "n \<le> length ks \<Longrightarrow> k + n = length array \<Longrightarrow> \<forall>j<n. ks ! j < length array \<Longrightarrow>
         \<exists>ys. shuffle_loop rnd array (map Some ks) (map Some res) k n = map Some (res @ ys) \<and>
              mset ys = mset (map ((!) array) (take n ks))"
proof (induction n arbitrary: ks res k)
  case 0
  then show ?case by (simp add: shuffle_loop.simps)
next
  case (Suc n)
  let ?i = "draw rnd k (Suc n)"
  let ?ks = "ks[n := ks ! ?i, ?i := ks ! n]"
  let ?res = "res @ [array ! (ks ! ?i)]"
  have i: "?i < Suc n" using draw_less[OF ok] by simp
  have step: "shuffle_loop rnd array (map Some ks) (map Some res) k (Suc n) =
        shuffle_loop rnd array (map Some ?ks) (map Some ?res) (Suc k) n"
    by (rule shuffle_loop_step[OF ok big Suc.prems])
  have rng': "\<forall>j<n. ?ks ! j < length array"
    using Suc.prems i by (auto simp: nth_list_update)
  have "n \<le> length ?ks" "Suc k + n = length array" using Suc.prems by simp_all
  from Suc.IH[OF this rng', of ?res]
  obtain ys where ys: "shuffle_loop rnd array (map Some ?ks) (map Some ?res) (Suc k) n
        = map Some (?res @ ys)"
      "mset ys = mset (map ((!) array) (take n ?ks))" by blast
  have "add_mset (ks ! ?i) (mset (take n ?ks)) = mset (take (Suc n) ks)"
    using mset_take_swap[OF Suc.prems(1) i] .
  then have "image_mset ((!) array) (mset (take (Suc n) ks))
           = add_mset (array ! (ks ! ?i)) (image_mset ((!) array) (mset (take n ?ks)))"
    by (simp only: image_mset_add_mset[symmetric])
  then have m: "mset (map ((!) array) (take (Suc n) ks)) = add_mset (array ! (ks ! ?i)) (mset ys)"
    using ys(2) by (simp only: mset_map)
  have "shuffle_loop rnd array (map Some ks) (map Some res) k (Suc n)
        = map Some (res @ (array ! (ks ! ?i) # ys))"
    using step ys(1) by simp
  moreover have "mset (array ! (ks ! ?i) # ys) = mset (map ((!) array) (take (Suc n) ks))"
    using m by simp
  ultimately show ?case by blast
qed


lemma shuffleNames_perm:
  assumes "rnd_ok rnd" "length array < 2 ^ 31"
  shows "\<exists>ys. shuffleNames rnd array = map Some ys \<and> mset ys = mset array"
proof -
  have "\<exists>ys. shuffle_loop rnd array (map Some [0..<length array]) (map Some []) 0 (length array)
           = map Some ([] @ ys) \<and> mset ys = mset (map ((!) array) (take (length array) [0..<length array]))"
    by (rule shuffle_loop_perm[OF assms]) simp_all
  then show ?thesis by (simp add: shuffleNames_def map_nth)
qed

lemma shuffleNames_Nil: "shuffleNames rnd [] = []"
  by (simp add: shuffleNames_def shuffle_loop.simps)

lemmas shuffle_eval =
  shuffleNames_def shuffle_loop.simps to_int32_def js_trunc_def uarr_get_def uarr_set_def
  arr_get_def Let_def


section \<open>The reel and the spin\<close>

lemma concat_replicate_double: "concat (replicate n (xs @ xs)) = concat (replicate (2 * n) xs)"
  by (induction n) simp_all

lemma repeat_names_Nil: "repeat_names m [] = []"
  by (simp add: repeat_names.simps)

lemma repeat_names_set: "set (repeat_names m xs) = set xs"
proof (induction m xs rule: repeat_names.induct)
  case (1 m xs)
  show ?case
  proof (cases "length xs \<noteq> 0 \<and> int (length xs) < m")
    case True
    then have "repeat_names m xs = repeat_names m (xs @ xs)" by (subst repeat_names.simps) simp
    then show ?thesis using 1[OF True] by simp
  next
    case False
    then show ?thesis by (subst repeat_names.simps) auto
  qed
qed

lemma repeat_names_length: "xs \<noteq> [] \<Longrightarrow> m \<le> int (length (repeat_names m xs))"
proof (induction m xs rule: repeat_names.induct)
  case (1 m xs)
  show ?case
  proof (cases "length xs \<noteq> 0 \<and> int (length xs) < m")
    case True
    then have "repeat_names m xs = repeat_names m (xs @ xs)" by (subst repeat_names.simps) simp
    then show ?thesis using 1(1)[OF True] 1(2) by simp
  next
    case False
    then have "repeat_names m xs = xs" by (subst repeat_names.simps) auto
    then show ?thesis using False 1(2) by simp
  qed
qed

lemma repeat_names_concat:
  "\<exists>j. repeat_names m xs = concat (replicate (2 ^ j) xs)
       \<and> (j = 0 \<or> int (length xs) * 2 ^ (j - 1) < m)"
proof (induction m xs rule: repeat_names.induct)
  case (1 m xs)
  show ?case
  proof (cases "length xs \<noteq> 0 \<and> int (length xs) < m")
    case True
    then have eq: "repeat_names m xs = repeat_names m (xs @ xs)" by (subst repeat_names.simps) simp
    from 1[OF True] obtain j where j: "repeat_names m (xs @ xs) = concat (replicate (2 ^ j) (xs @ xs))"
      "j = 0 \<or> int (length (xs @ xs)) * 2 ^ (j - 1) < m" by blast
    have a: "repeat_names m xs = concat (replicate (2 ^ Suc j) xs)"
      using eq j(1) by (simp add: concat_replicate_double)
    have b: "int (length xs) * 2 ^ (Suc j - 1) < m"
    proof (cases j)
      case 0
      then show ?thesis using True by simp
    next
      case (Suc i)
      then show ?thesis using j(2) by (simp add: algebra_simps)
    qed
    show ?thesis using a b by blast
  next
    case False
    then have "repeat_names m xs = xs" by (subst repeat_names.simps) auto
    then have "repeat_names m xs = concat (replicate (2 ^ 0) xs)" by simp
    then show ?thesis by blast
  qed
qed


lemma call_hook_fields [simp]:
  "nameList (call_hook b h s) = nameList s"
  "prizeList (call_hook b h s) = prizeList s"
  "winnerList (call_hook b h s) = winnerList s"
  "randomNames (call_hook b h s) = randomNames s"
  "havePreviousWinner (call_hook b h s) = havePreviousWinner s"
  "reelContainer (call_hook b h s) = reelContainer s"
  "maxReelItems (call_hook b h s) = maxReelItems s"
  "shouldRemoveWinner (call_hook b h s) = shouldRemoveWinner s"
  "reelAnimation (call_hook b h s) = reelAnimation s"
  "onSpinStart (call_hook b h s) = onSpinStart s"
  "onSpinEnd (call_hook b h s) = onSpinEnd s"
  "onNameListChanged (call_hook b h s) = onNameListChanged s"
  "hookLog (call_hook b h s) = hookLog s @ (if b then [h] else [])"
  by (simp_all add: call_hook_def)

lemmas spin_defs = spin_def spin_start_def spin_finish_def addWinner_def Let_def

lemma spin_empty: "nameList s = [] \<Longrightarrow> spin rnd s = (False, s)"
  by (simp add: spin_def spin_start_def)

lemma spin_no_surface:
  assumes "nameList s \<noteq> []" "reelContainer s = None \<or> reelAnimation s = None"
  shows "spin rnd s = (False, call_hook (onSpinStart s) SpinStart s)"
proof (cases "reelContainer s")
  case None
  then show ?thesis using assms(1) by (simp add: spin_def spin_start_def)
next
  case (Some ch)
  then have "reelAnimation s = None" using assms(2) by simp
  then show ?thesis using assms(1) Some by (simp add: spin_def spin_start_def)
qed

lemma spin_succeeds_iff:
  "fst (spin rnd s) \<longleftrightarrow> nameList s \<noteq> [] \<and> reelContainer s \<noteq> None \<and> reelAnimation s \<noteq> None"
proof (cases "nameList s = []")
  case True
  then show ?thesis by (simp add: spin_empty)
next
  case False
  show ?thesis
  proof (cases "reelContainer s = None \<or> reelAnimation s = None")
    case True
    then show ?thesis using spin_no_surface[OF False True] by auto
  next
    case False
    then obtain ch a where "reelContainer s = Some ch" "reelAnimation s = Some a" by auto
    then show ?thesis using \<open>nameList s \<noteq> []\<close> by (simp add: spin_defs)
  qed
qed

lemma spin_randomNames:
  assumes "fst (spin rnd s)"
  shows "populated rnd s =
     js_slice0 (repeat_names (maxReelItems s) (shuffleNames rnd (nameList s)))
       (maxReelItems s - (if havePreviousWinner s then 1 else 0))"
proof -
  obtain ch a where "nameList s \<noteq> []" "reelContainer s = Some ch" "reelAnimation s = Some a"
    using assms spin_succeeds_iff by auto
  then show ?thesis by (simp add: populated_def spin_defs)
qed

lemma spin_winnerList:
  assumes "fst (spin rnd s)"
  shows "winnerList (snd (spin rnd s)) =
     winnerList s @ [getActivePrizeToDraw s @ '' - '' @
        to_str (uarr_get (populated rnd s) (int (length (populated rnd s)) - 1))]"
proof -
  obtain ch a where "nameList s \<noteq> []" "reelContainer s = Some ch" "reelAnimation s = Some a"
    using assms spin_succeeds_iff by auto
  then show ?thesis by (simp add: populated_def spin_defs getActivePrizeToDraw_def)
qed

lemma spin_prizeList:
  assumes "fst (spin rnd s)"
  shows "prizeList (snd (spin rnd s)) = drop 1 (prizeList s)"
proof -
  obtain ch a where "nameList s \<noteq> []" "reelContainer s = Some ch" "reelAnimation s = Some a"
    using assms spin_succeeds_iff by auto
  then show ?thesis by (simp add: spin_defs js_splice1_def)
qed

lemma spin_nameList:
  assumes "fst (spin rnd s)"
  shows "nameList (snd (spin rnd s)) =
     (if shouldRemoveWinner s
      then js_splice1 (nameList s)
             (findIndex (\<lambda>name. Some name = uarr_get (populated rnd s) (int (length (populated rnd s)) - 1))
                (nameList s))
      else nameList s)"
proof -
  obtain ch a where "nameList s \<noteq> []" "reelContainer s = Some ch" "reelAnimation s = Some a"
    using assms spin_succeeds_iff by auto
  then show ?thesis by (simp add: populated_def spin_defs)
qed

lemma spin_other_fields:
  assumes "fst (spin rnd s)"
  shows "havePreviousWinner (snd (spin rnd s))"
    "reelAnimation (snd (spin rnd s)) = Some Finished"
    "maxReelItems (snd (spin rnd s)) = maxReelItems s"
    "shouldRemoveWinner (snd (spin rnd s)) = shouldRemoveWinner s"
    "hookLog (snd (spin rnd s)) =
       hookLog s @ (if onSpinStart s then [SpinStart] else []) @ (if onSpinEnd s then [SpinEnd] else [])"
proof -
  obtain ch a where *: "nameList s \<noteq> []" "reelContainer s = Some ch" "reelAnimation s = Some a"
    using assms spin_succeeds_iff by auto
  show "havePreviousWinner (snd (spin rnd s))" using * by (simp add: spin_defs)
  show "reelAnimation (snd (spin rnd s)) = Some Finished" using * by (simp add: spin_defs)
  show "maxReelItems (snd (spin rnd s)) = maxReelItems s" using * by (simp add: spin_defs)
  show "shouldRemoveWinner (snd (spin rnd s)) = shouldRemoveWinner s" using * by (simp add: spin_defs)
  show "hookLog (snd (spin rnd s)) =
       hookLog s @ (if onSpinStart s then [SpinStart] else []) @ (if onSpinEnd s then [SpinEnd] else [])"
    using * by (simp add: spin_defs)
qed


lemma shuffleNames_set:
  assumes "rnd_ok rnd" "length xs < 2 ^ 31"
  shows "set (shuffleNames rnd xs) = Some ` set xs"
proof -
  obtain ys where ys: "shuffleNames rnd xs = map Some ys" "mset ys = mset xs"
    using shuffleNames_perm[OF assms] by blast
  have "set ys = set xs" using ys(2) by (rule mset_eq_setD)
  then show ?thesis using ys(1) by simp
qed

lemma shuffleNames_length:
  assumes "rnd_ok rnd" "length xs < 2 ^ 31"
  shows "length (shuffleNames rnd xs) = length xs"
proof -
  obtain ys where ys: "shuffleNames rnd xs = map Some ys" "mset ys = mset xs"
    using shuffleNames_perm[OF assms] by blast
  have "length ys = length xs" using ys(2) by (rule mset_eq_length)
  then show ?thesis using ys(1) by simp
qed

lemma js_slice0_subset: "set (js_slice0 xs e) \<subseteq> set xs"
  by (auto simp: js_slice0_def dest: in_set_takeD)

lemma js_slice0_length:
  assumes "0 \<le> e" "e \<le> int (length xs)"
  shows "js_slice0 xs e = take (nat e) xs" "length (js_slice0 xs e) = nat e"
proof -
  have "min e (int (length xs)) = e" using assms by simp
  then show "js_slice0 xs e = take (nat e) xs" using assms by (simp add: js_slice0_def)
  then show "length (js_slice0 xs e) = nat e" using assms by simp
qed

lemma uarr_get_last: "xs \<noteq> [] \<Longrightarrow> uarr_get xs (int (length xs) - 1) = last xs"
proof -
  assume a: "xs \<noteq> []"
  then obtain n where n: "length xs = Suc n" by (cases xs) auto
  then show ?thesis using a by (simp add: uarr_get_def last_conv_nth)
qed

lemma uarr_get_last_Nil: "uarr_get [] (int (length []) - 1) = None"
  by (simp add: uarr_get_def)

lemma findIndex_bounds: "- 1 \<le> findIndex p xs \<and> findIndex p xs < int (length xs)"
  by (induction xs) (auto simp: Let_def)

lemma findIndex_none: "\<forall>x\<in>set xs. \<not> p x \<Longrightarrow> findIndex p xs = - 1"
  by (induction xs) (auto simp: Let_def)

lemma findIndex_found: "\<exists>x\<in>set xs. p x \<Longrightarrow> 0 \<le> findIndex p xs"
proof (induction xs)
  case Nil
  then show ?case by simp
next
  case (Cons x xs)
  show ?case
  proof (cases "p x")
    case True
    then show ?thesis by simp
  next
    case False
    then have "0 \<le> findIndex p xs" using Cons by auto
    then show ?thesis using False by (simp add: Let_def)
  qed
qed

lemma js_splice1_Cons:
  assumes "0 \<le> r" "r < int (length xs)"
  shows "js_splice1 (x # xs) (r + 1) = x # js_splice1 xs r"
proof -
  have "nat (r + 1) = Suc (nat r)" using assms(1) by simp
  then show ?thesis using assms by (simp add: js_splice1_def Let_def min_def)
qed

lemma js_splice1_findIndex:
  "w \<in> set xs \<Longrightarrow> js_splice1 xs (findIndex (\<lambda>name. name = w) xs) = remove1 w xs"
proof (induction xs)
  case Nil
  then show ?case by simp
next
  case (Cons x xs)
  show ?case
  proof (cases "x = w")
    case True
    then show ?thesis by (simp add: js_splice1_def)
  next
    case False
    then have w: "w \<in> set xs" using Cons.prems by simp
    let ?r = "findIndex (\<lambda>name. name = w) xs"
    have r0: "0 \<le> ?r" using w by (intro findIndex_found) auto
    have r1: "?r < int (length xs)" using findIndex_bounds by blast
    have "findIndex (\<lambda>name. name = w) (x # xs) = ?r + 1"
      using False r0 by (simp add: Let_def)
    then show ?thesis using js_splice1_Cons[OF r0 r1] Cons.IH[OF w] False by simp
  qed
qed

lemma js_splice1_last: "xs \<noteq> [] \<Longrightarrow> js_splice1 xs (- 1) = butlast xs"
proof -
  assume a: "xs \<noteq> []"
  then obtain n where n: "length xs = Suc n" by (cases xs) auto
  have "drop (Suc n) xs = []" using n by simp
  then show ?thesis using n by (simp add: js_splice1_def butlast_conv_take)
qed

text \<open>The reel after a successful spin, for a configuration with at least one reel item.\<close>

lemma populated_take:
  assumes ok: "rnd_ok rnd" and ne: "nameList s \<noteq> []" and big: "length (nameList s) < 2 ^ 31"
    and m: "1 \<le> maxReelItems s" and succ: "fst (spin rnd s)"
  shows "populated rnd s =
           take (nat (maxReelItems s - (if havePreviousWinner s then 1 else 0)))
             (repeat_names (maxReelItems s) (shuffleNames rnd (nameList s)))"
    and "length (populated rnd s) = nat (maxReelItems s - (if havePreviousWinner s then 1 else 0))"
    and "maxReelItems s \<le> int (length (repeat_names (maxReelItems s) (shuffleNames rnd (nameList s))))"
    and "set (populated rnd s) \<subseteq> Some ` set (nameList s)"
proof -
  let ?sh = "shuffleNames rnd (nameList s)"
  let ?rp = "repeat_names (maxReelItems s) ?sh"
  let ?e = "maxReelItems s - (if havePreviousWinner s then 1 else 0)"
  have "length ?sh = length (nameList s)" using shuffleNames_length[OF ok big] .
  then have "?sh \<noteq> []" using ne by auto
  then show len: "maxReelItems s \<le> int (length ?rp)" by (rule repeat_names_length)
  have e: "0 \<le> ?e" "?e \<le> int (length ?rp)" using m len by auto
  have p: "populated rnd s = js_slice0 ?rp ?e" using spin_randomNames[OF succ] .
  show "populated rnd s = take (nat ?e) ?rp" using p js_slice0_length(1)[OF e] by simp
  show "length (populated rnd s) = nat ?e" using p js_slice0_length(2)[OF e] by simp
  have "set (populated rnd s) \<subseteq> set ?rp" using p js_slice0_subset by metis
  then show "set (populated rnd s) \<subseteq> Some ` set (nameList s)"
    using repeat_names_set[of "maxReelItems s" ?sh] shuffleNames_set[OF ok big] by simp
qed

lemma winner_genuine:
  assumes ok: "rnd_ok rnd" and ne: "nameList s \<noteq> []" and big: "length (nameList s) < 2 ^ 31"
    and m: "1 \<le> maxReelItems s - (if havePreviousWinner s then 1 else 0)" and succ: "fst (spin rnd s)"
  shows "populated rnd s \<noteq> []"
    and "\<exists>w\<in>set (nameList s). uarr_get (populated rnd s) (int (length (populated rnd s)) - 1) = Some w
            \<and> last (populated rnd s) = Some w"
proof -
  have m1: "1 \<le> maxReelItems s" using m by (simp split: if_splits)
  have "length (populated rnd s) = nat (maxReelItems s - (if havePreviousWinner s then 1 else 0))"
    using populated_take(2)[OF ok ne big m1 succ] .
  then have "0 < length (populated rnd s)" using m by simp
  then show nn: "populated rnd s \<noteq> []" by simp
  then have "last (populated rnd s) \<in> set (populated rnd s)" by simp
  then have "last (populated rnd s) \<in> Some ` set (nameList s)"
    using populated_take(4)[OF ok ne big m1 succ] by blast
  then obtain w where "w \<in> set (nameList s)" "last (populated rnd s) = Some w" by auto
  then show "\<exists>w\<in>set (nameList s). uarr_get (populated rnd s) (int (length (populated rnd s)) - 1) = Some w
            \<and> last (populated rnd s) = Some w"
    using uarr_get_last[OF nn] by auto
qed


text \<open>A spin whose reel receives at least one new item logs and removes a name of the list.\<close>

lemma getActivePrizeToDraw_case:
  "getActivePrizeToDraw s = (case prizeList s of [] \<Rightarrow> ''-------'' | p # ps \<Rightarrow> p)"
  by (cases "prizeList s") (simp_all add: getActivePrizeToDraw_def)

lemma spin_logs_winner:
  assumes ok: "rnd_ok rnd" and ne: "nameList s \<noteq> []" and big: "length (nameList s) < 2 ^ 31"
    and m: "1 \<le> maxReelItems s - (if havePreviousWinner s then 1 else 0)" and succ: "fst (spin rnd s)"
  shows "\<exists>w\<in>set (nameList s). last (populated rnd s) = Some w
           \<and> winnerList (snd (spin rnd s)) = winnerList s @ [getActivePrizeToDraw s @ '' - '' @ w]"
proof -
  obtain w where w: "w \<in> set (nameList s)"
      "uarr_get (populated rnd s) (int (length (populated rnd s)) - 1) = Some w"
      "last (populated rnd s) = Some w"
    using winner_genuine(2)[OF ok ne big m succ] by blast
  have "winnerList (snd (spin rnd s)) = winnerList s @ [getActivePrizeToDraw s @ '' - '' @ w]"
    using spin_winnerList[OF succ] w(2) by (simp add: to_str_def)
  then show ?thesis using w by blast
qed

lemma spin_removes_winner:
  assumes ok: "rnd_ok rnd" and ne: "nameList s \<noteq> []" and big: "length (nameList s) < 2 ^ 31"
    and m: "1 \<le> maxReelItems s - (if havePreviousWinner s then 1 else 0)" and succ: "fst (spin rnd s)"
  shows "\<exists>w\<in>set (nameList s). last (populated rnd s) = Some w
           \<and> nameList (snd (spin rnd s)) =
               (if shouldRemoveWinner s then remove1 w (nameList s) else nameList s)
           \<and> length (nameList (snd (spin rnd s))) =
               (if shouldRemoveWinner s then length (nameList s) - 1 else length (nameList s))"
proof -
  obtain w where w: "w \<in> set (nameList s)"
      "uarr_get (populated rnd s) (int (length (populated rnd s)) - 1) = Some w"
      "last (populated rnd s) = Some w"
    using winner_genuine(2)[OF ok ne big m succ] by blast
  have n: "nameList (snd (spin rnd s)) =
               (if shouldRemoveWinner s then remove1 w (nameList s) else nameList s)"
    using spin_nameList[OF succ] w(1,2) by (simp add: js_splice1_findIndex)
  have "length (remove1 w (nameList s)) = length (nameList s) - 1"
    using w(1) by (simp add: length_remove1)
  then show ?thesis using n w by auto
qed


section \<open>The forced stop\<close>

lemma forceStopSpin_effect:
  assumes "reelContainer s = Some children"
  shows "forceStopSpin s =
     Inr (True, s\<lparr>reelAnimation := map_option (\<lambda>anim. Finished) (reelAnimation s),
                  reelContainer := Some (collapse_reel children),
                  havePreviousWinner := True,
                  hookLog := hookLog s @ (if onSpinEnd s then [SpinEnd] else [])\<rparr>)"
  using assms by (simp add: forceStopSpin_def call_hook_def)

lemma forceStopSpin_no_container: "reelContainer s = None \<Longrightarrow> forceStopSpin s = Inl TypeError"
  by (simp add: forceStopSpin_def)

text \<open>
  When \<open>spin_finish\<close> runs on the state a forced stop has left, it calls \<open>onSpinEnd\<close>
  once more.
\<close>

lemma forced_stop_fires_twice:
  assumes "forceStopSpin s1 = Inr (True, s2)"
  shows "hookLog (snd (spin_finish s2)) = hookLog s1 @ (if onSpinEnd s1 then [SpinEnd, SpinEnd] else [])"
proof (cases "reelContainer s1")
  case None
  then show ?thesis using assms by (simp add: forceStopSpin_no_container)
next
  case (Some children)
  then have "s2 = s1\<lparr>reelAnimation := map_option (\<lambda>anim. Finished) (reelAnimation s1),
                  reelContainer := Some (collapse_reel children),
                  havePreviousWinner := True,
                  hookLog := hookLog s1 @ (if onSpinEnd s1 then [SpinEnd] else [])\<rparr>"
    using assms forceStopSpin_effect[OF Some] by simp
  then show ?thesis by (simp add: spin_finish_def)
qed


lemma collapse_reel_eq: "collapse_reel xs = (if xs = [] then [] else [last xs])"
proof (cases xs rule: rev_cases)
  case Nil
  then show ?thesis by (simp add: collapse_reel_def js_slice0_def)
next
  case (snoc ys y)
  then show ?thesis by (simp add: collapse_reel_def js_slice0_def)
qed

lemma collapse_reel_idem: "collapse_reel (collapse_reel xs) = collapse_reel xs"
  by (simp add: collapse_reel_eq)

text \<open>
  A spin ended by a forced stop leaves the engine as the uninterrupted spin does, except
  that \<open>onSpinEnd\<close> has been called twice.
\<close>

lemma spin_start_awaiting:
  assumes "fst (spin rnd s)"
  shows "\<exists>s1 children. spin_start rnd s = Awaiting s1 \<and> reelContainer s1 = Some children
           \<and> onSpinEnd s1 = onSpinEnd s"
proof -
  obtain ch a where *: "nameList s \<noteq> []" "reelContainer s = Some ch" "reelAnimation s = Some a"
    using assms spin_succeeds_iff by auto
  then show ?thesis by (simp add: spin_start_def addWinner_def Let_def)
qed

lemma spin_forced_eq:
  assumes "fst (spin rnd s)"
  shows "spin_forced rnd s =
     Inr (True, (snd (spin rnd s))
        \<lparr>hookLog := hookLog (snd (spin rnd s)) @ (if onSpinEnd s then [SpinEnd] else [])\<rparr>)"
proof -
  obtain s1 children where s1: "spin_start rnd s = Awaiting s1" "reelContainer s1 = Some children"
      "onSpinEnd s1 = onSpinEnd s"
    using spin_start_awaiting[OF assms] by blast
  have a: "spin rnd s = spin_finish s1" using s1(1) by (simp add: spin_def)
  have f: "forceStopSpin s1 =
     Inr (True, s1\<lparr>reelAnimation := map_option (\<lambda>anim. Finished) (reelAnimation s1),
                  reelContainer := Some (collapse_reel children),
                  havePreviousWinner := True,
                  hookLog := hookLog s1 @ (if onSpinEnd s1 then [SpinEnd] else [])\<rparr>)"
    by (rule forceStopSpin_effect[OF s1(2)])
  show ?thesis
    using s1
    by (simp add: a f spin_forced_def spin_finish_def call_hook_def collapse_reel_idem
        option.map_comp comp_def)
qed


section \<open>\<open>shuffleNames\<close> and the reference shuffle\<close>

lemma length_swap: "length (swap xs i j) = length xs"
  by (simp add: swap_def)

lemma map_swap:
  "i < length ks \<Longrightarrow> j < length ks \<Longrightarrow> swap (map f ks) i j = map f (ks[i := ks ! j, j := ks ! i])"
  by (simp add: swap_def map_update)

lemma fisher_yates_from_length: "length (fisher_yates_from rnd a k n) = length a"
  by (induction n arbitrary: a k) (simp_all add: length_swap)

lemma fisher_yates_from_untouched:
  assumes ok: "rnd_ok rnd"
  shows "n \<le> j \<Longrightarrow> fisher_yates_from rnd a k n ! j = a ! j"
proof (induction n arbitrary: a k)
  case 0
  then show ?case by simp
next
  case (Suc n)
  have i: "draw rnd k (Suc n) < Suc n" using draw_less[OF ok] by simp
  have "fisher_yates_from rnd a k (Suc n) ! j = swap a n (draw rnd k (Suc n)) ! j"
    using Suc.IH[of "swap a n (draw rnd k (Suc n))" "Suc k"] Suc.prems by simp
  also have "\<dots> = a ! j" using Suc.prems i by (simp add: swap_def)
  finally show ?case .
qed

lemma shuffle_loop_fisher_yates:
  assumes ok: "rnd_ok rnd" and big: "length array < 2 ^ 31"
  shows "n \<le> length ks \<Longrightarrow> k + n = length array \<Longrightarrow> \<forall>j<n. ks ! j < length array \<Longrightarrow>
         shuffle_loop rnd array (map Some ks) (map Some res) k n =
         map Some (res @ rev (take n (fisher_yates_from rnd (map ((!) array) ks) k n)))"
proof (induction n arbitrary: ks res k)
  case 0
  then show ?case by (simp add: shuffle_loop.simps)
next
  case (Suc n)
  let ?i = "draw rnd k (Suc n)"
  let ?ks = "ks[n := ks ! ?i, ?i := ks ! n]"
  let ?x = "array ! (ks ! ?i)"
  let ?fy = "fisher_yates_from rnd (map ((!) array) ?ks) (Suc k) n"
  have i: "?i < Suc n" using draw_less[OF ok] by simp
  have il: "?i < length ks" "n < length ks" using i Suc.prems(1) by simp_all
  have step: "shuffle_loop rnd array (map Some ks) (map Some res) k (Suc n) =
        shuffle_loop rnd array (map Some ?ks) (map Some (res @ [?x])) (Suc k) n"
    by (rule shuffle_loop_step[OF ok big Suc.prems])
  have rng': "\<forall>j<n. ?ks ! j < length array"
    using Suc.prems i by (auto simp: nth_list_update)
  have "n \<le> length ?ks" "Suc k + n = length array" using Suc.prems by simp_all
  from Suc.IH[OF this rng', of "res @ [?x]"]
  have ih: "shuffle_loop rnd array (map Some ?ks) (map Some (res @ [?x])) (Suc k) n
        = map Some ((res @ [?x]) @ rev (take n ?fy))" .
  have fy: "fisher_yates_from rnd (map ((!) array) ks) k (Suc n) = ?fy"
    using map_swap[OF il(2) il(1), of "(!) array"] by simp
  have len: "length ?fy = length ks" by (simp add: fisher_yates_from_length)
  have "?fy ! n = map ((!) array) ?ks ! n"
    by (rule fisher_yates_from_untouched[OF ok]) simp
  also have "\<dots> = array ! (?ks ! n)" using il by simp
  also have "?ks ! n = ks ! ?i" using il by (cases "?i = n") (simp_all add: nth_list_update)
  finally have last: "?fy ! n = ?x" .
  have "take (Suc n) ?fy = take n ?fy @ [?x]"
    using len il(2) last by (simp add: take_Suc_conv_app_nth)
  then have "rev (take (Suc n) ?fy) = ?x # rev (take n ?fy)" by simp
  then show ?case using step ih fy by simp
qed


section \<open>Sample runs, evaluated\<close>

lemmas engine_eval = engine_def host_config_def constructed_def set_names_def set_prizes_def
  call_hook_def

lemma host_constructed:
  "0 \<le> m \<Longrightarrow> Slot_constructor (host_config m r) = Inr (constructed (host_config m r))"
  by (simp add: Slot_constructor_def animate_def host_config_def constructed_def)
lemmas run_eval1 = spin_def spin_start_def call_hook_def js_slice0_def uarr_get_def to_str_def
  getActivePrizeToDraw_def addWinner_def state_of_def
lemmas run_eval2 = Let_def js_splice1_def spin_finish_def collapse_reel_def js_slice0_def
  call_hook_def

lemma rnd_ok_half: "rnd_ok (constant_rnd (1 / 2))"
  by (simp add: rnd_ok_def constant_rnd_def)

lemma sample_shuffle:
  "shuffleNames (constant_rnd (1 / 2)) [''Alice'', ''Bob''] = [Some ''Bob'', Some ''Alice'']"
  "shuffleNames (constant_rnd (1 / 2)) [''Alice''] = [Some ''Alice'']"
  by (simp_all add: shuffle_eval constant_rnd_def)

lemma sample_repeat:
  "repeat_names 5 [Some ''Bob'', Some ''Alice''] =
     [Some ''Bob'', Some ''Alice'', Some ''Bob'', Some ''Alice'',
      Some ''Bob'', Some ''Alice'', Some ''Bob'', Some ''Alice'']"
  "repeat_names 1 [Some ''Bob'', Some ''Alice''] = [Some ''Bob'', Some ''Alice'']"
  "repeat_names 1 [Some ''Alice''] = [Some ''Alice'']"
  "repeat_names 0 [Some ''Alice''] = [Some ''Alice'']"
  by (simp_all add: repeat_names.simps)

text \<open>Five reel items, two names, the winner stays in the list.\<close>

lemma engine5:
  "engine 5 False [''Alice'', ''Bob''] [''Gold'', ''Silver''] =
   \<lparr> nameList = [''Alice'', ''Bob''], prizeList = [''Gold'', ''Silver''], winnerList = [],
     randomNames = [], havePreviousWinner = False, reelContainer = Some [], maxReelItems = 5,
     shouldRemoveWinner = False, reelAnimation = Some Idle, onSpinStart = True, onSpinEnd = True,
     onNameListChanged = True, hookLog = [NameListChanged] \<rparr>"
  by (simp add: engine_eval)

lemma engine5_spin_start:
  "state_of (spin_start (constant_rnd (1 / 2))
      (engine 5 False [''Alice'', ''Bob''] [''Gold'', ''Silver''])) =
    \<lparr> nameList = [''Alice'', ''Bob''], prizeList = [''Silver''], winnerList = [''Gold - Bob''],
      randomNames = [Some ''Bob'', Some ''Alice'', Some ''Bob'', Some ''Alice'', Some ''Bob''],
      havePreviousWinner = False,
      reelContainer = Some [''Bob'', ''Alice'', ''Bob'', ''Alice'', ''Bob''], maxReelItems = 5,
      shouldRemoveWinner = False, reelAnimation = Some Running, onSpinStart = True,
      onSpinEnd = True, onNameListChanged = True,
      hookLog = [NameListChanged, SpinStart] \<rparr>"
  apply (simp add: engine5 sample_shuffle sample_repeat run_eval1)
  apply (simp add: run_eval2)
  done

lemma engine5_spin:
  "spin (constant_rnd (1 / 2)) (engine 5 False [''Alice'', ''Bob''] [''Gold'', ''Silver'']) =
   (True,
    \<lparr> nameList = [''Alice'', ''Bob''], prizeList = [''Silver''], winnerList = [''Gold - Bob''],
      randomNames = [Some ''Bob'', Some ''Alice'', Some ''Bob'', Some ''Alice'', Some ''Bob''],
      havePreviousWinner = True, reelContainer = Some [''Bob''], maxReelItems = 5,
      shouldRemoveWinner = False, reelAnimation = Some Finished, onSpinStart = True,
      onSpinEnd = True, onNameListChanged = True,
      hookLog = [NameListChanged, SpinStart, SpinEnd] \<rparr>)"
  apply (simp add: engine5 sample_shuffle sample_repeat run_eval1)
  apply (simp add: run_eval2)
  done

lemma engine5_spin_spin:
  "spin (constant_rnd (1 / 2))
     (snd (spin (constant_rnd (1 / 2)) (engine 5 False [''Alice'', ''Bob''] [''Gold'', ''Silver'']))) =
   (True,
    \<lparr> nameList = [''Alice'', ''Bob''], prizeList = [],
      winnerList = [''Gold - Bob'', ''Silver - Alice''],
      randomNames = [Some ''Bob'', Some ''Alice'', Some ''Bob'', Some ''Alice''],
      havePreviousWinner = True, reelContainer = Some [''Alice''], maxReelItems = 5,
      shouldRemoveWinner = False, reelAnimation = Some Finished, onSpinStart = True,
      onSpinEnd = True, onNameListChanged = True,
      hookLog = [NameListChanged, SpinStart, SpinEnd, SpinStart, SpinEnd] \<rparr>)"
  apply (simp add: engine5_spin)
  apply (simp add: sample_shuffle sample_repeat run_eval1)
  apply (simp add: run_eval2)
  done

text \<open>One reel item, two names, the winner is removed from the list.\<close>

lemma engine1:
  "engine 1 True [''Alice'', ''Bob''] [''Gold'', ''Silver''] =
   \<lparr> nameList = [''Alice'', ''Bob''], prizeList = [''Gold'', ''Silver''], winnerList = [],
     randomNames = [], havePreviousWinner = False, reelContainer = Some [], maxReelItems = 1,
     shouldRemoveWinner = True, reelAnimation = Some Idle, onSpinStart = True, onSpinEnd = True,
     onNameListChanged = True, hookLog = [NameListChanged] \<rparr>"
  by (simp add: engine_eval)

lemma engine1_spin:
  "spin (constant_rnd (1 / 2)) (engine 1 True [''Alice'', ''Bob''] [''Gold'', ''Silver'']) =
   (True,
    \<lparr> nameList = [''Alice''], prizeList = [''Silver''], winnerList = [''Gold - Bob''],
      randomNames = [Some ''Bob''],
      havePreviousWinner = True, reelContainer = Some [''Bob''], maxReelItems = 1,
      shouldRemoveWinner = True, reelAnimation = Some Finished, onSpinStart = True,
      onSpinEnd = True, onNameListChanged = True,
      hookLog = [NameListChanged, SpinStart, SpinEnd] \<rparr>)"
  apply (simp add: engine1 sample_shuffle sample_repeat run_eval1)
  apply (simp add: run_eval2)
  done

lemma engine1_spin_spin:
  "spin (constant_rnd (1 / 2))
     (snd (spin (constant_rnd (1 / 2)) (engine 1 True [''Alice'', ''Bob''] [''Gold'', ''Silver'']))) =
   (True,
    \<lparr> nameList = [], prizeList = [], winnerList = [''Gold - Bob'', ''Silver - undefined''],
      randomNames = [],
      havePreviousWinner = True, reelContainer = Some [''Bob''], maxReelItems = 1,
      shouldRemoveWinner = True, reelAnimation = Some Finished, onSpinStart = True,
      onSpinEnd = True, onNameListChanged = True,
      hookLog = [NameListChanged, SpinStart, SpinEnd, SpinStart, SpinEnd] \<rparr>)"
  apply (simp add: engine1_spin)
  apply (simp add: sample_shuffle sample_repeat run_eval1)
  apply (simp add: run_eval2)
  done

text \<open>No reel item at all, and no prize.\<close>

lemma engine0:
  "engine 0 True [''Alice''] [] =
   \<lparr> nameList = [''Alice''], prizeList = [], winnerList = [],
     randomNames = [], havePreviousWinner = False, reelContainer = Some [], maxReelItems = 0,
     shouldRemoveWinner = True, reelAnimation = Some Idle, onSpinStart = True, onSpinEnd = True,
     onNameListChanged = True, hookLog = [NameListChanged] \<rparr>"
  by (simp add: engine_eval)

lemma engine0_spin:
  "spin (constant_rnd (1 / 2)) (engine 0 True [''Alice''] []) =
   (True,
    \<lparr> nameList = [], prizeList = [], winnerList = [''------- - undefined''],
      randomNames = [],
      havePreviousWinner = True, reelContainer = Some [], maxReelItems = 0,
      shouldRemoveWinner = True, reelAnimation = Some Finished, onSpinStart = True,
      onSpinEnd = True, onNameListChanged = True,
      hookLog = [NameListChanged, SpinStart, SpinEnd] \<rparr>)"
  apply (simp add: engine0 sample_shuffle sample_repeat run_eval1)
  apply (simp add: run_eval2)
  done


section \<open>The claims\<close>

subsection \<open>The winner and the winner log\<close>

text \<open>
  C1: a successful spin on a non-empty name list is claimed to log, as its one new entry,
  the active prize, \<open>'' - ''\<close> and a winner that is a name of the list before the spin.
  The engine below is configured with one reel item and removal of the winner, and holds
  Alice and Bob with the prizes Gold and Silver.  Its first spin draws Bob and leaves him
  displayed.  The second spin starts from the list \<open>[Alice]\<close>; it reserves the single
  reel item for the displayed winner, so that the new reel is empty, reads the winner
  outside that empty reel, and logs \<open>Silver - undefined\<close>: the logged winner is not a
  name of the list.
\<close>

theorem single_item_reel_logs_undefined:
  "nameList (snd (spin (constant_rnd (1 / 2))
       (engine 1 True [''Alice'', ''Bob''] [''Gold'', ''Silver'']))) = [''Alice'']
   \<and> fst (spin (constant_rnd (1 / 2)) (snd (spin (constant_rnd (1 / 2))
       (engine 1 True [''Alice'', ''Bob''] [''Gold'', ''Silver'']))))
   \<and> populated (constant_rnd (1 / 2)) (snd (spin (constant_rnd (1 / 2))
       (engine 1 True [''Alice'', ''Bob''] [''Gold'', ''Silver'']))) = []
   \<and> winnerList (snd (spin (constant_rnd (1 / 2)) (snd (spin (constant_rnd (1 / 2))
       (engine 1 True [''Alice'', ''Bob''] [''Gold'', ''Silver''])))))
       = winnerList (snd (spin (constant_rnd (1 / 2))
           (engine 1 True [''Alice'', ''Bob''] [''Gold'', ''Silver''])))
         @ [''Silver - undefined'']"
  by (simp add: populated_def engine1_spin_spin) (simp add: engine1_spin)

subsection \<open>The reel\<close>

text \<open>
  C2: in a spin on a non-empty name list with \<open>maxReelItems \<ge> 1\<close> that reaches the reel
  (the reel container exists, so the spin succeeds), the shuffled list is concatenated with
  itself \<open>j\<close> times, where \<open>j\<close> is the first number of doublings that brings the length to
  \<open>maxReelItems\<close> or more; the reel is the first \<open>maxReelItems\<close> items of the result when
  no previous winner is displayed and the first \<open>maxReelItems - 1\<close> items when one is, it
  has exactly that length, and each of its items is a name of the list before the spin.
\<close>

theorem spin_populates_reel:
  assumes "rnd_ok rnd" and "nameList s \<noteq> []" and "length (nameList s) < 2 ^ 31"
    and "1 \<le> maxReelItems s" and "fst (spin rnd s)"
  shows "\<exists>j. (j = 0 \<or> int (length (shuffleNames rnd (nameList s))) * 2 ^ (j - 1) < maxReelItems s)
           \<and> maxReelItems s \<le> int (length (concat (replicate (2 ^ j) (shuffleNames rnd (nameList s)))))
           \<and> populated rnd s =
               take (if havePreviousWinner s then nat (maxReelItems s - 1) else nat (maxReelItems s))
                 (concat (replicate (2 ^ j) (shuffleNames rnd (nameList s))))
           \<and> length (populated rnd s) =
               (if havePreviousWinner s then nat (maxReelItems s - 1) else nat (maxReelItems s))
           \<and> set (populated rnd s) \<subseteq> Some ` set (nameList s)"
proof -
  let ?sh = "shuffleNames rnd (nameList s)"
  obtain j where j: "repeat_names (maxReelItems s) ?sh = concat (replicate (2 ^ j) ?sh)"
      "j = 0 \<or> int (length ?sh) * 2 ^ (j - 1) < maxReelItems s"
    using repeat_names_concat by blast
  note p = populated_take[OF assms]
  have 1: "maxReelItems s \<le> int (length (concat (replicate (2 ^ j) ?sh)))"
    using p(3) j(1) by simp
  have 2: "populated rnd s =
               take (if havePreviousWinner s then nat (maxReelItems s - 1) else nat (maxReelItems s))
                 (concat (replicate (2 ^ j) ?sh))"
    using p(1) j(1) by simp
  have 3: "length (populated rnd s) =
               (if havePreviousWinner s then nat (maxReelItems s - 1) else nat (maxReelItems s))"
    using p(2) by simp
  show ?thesis using j(2) 1 2 3 p(4) by blast
qed

theorem spin_populates_reel_witness:
  "rnd_ok (constant_rnd (1 / 2))
   \<and> nameList (engine 5 False [''Alice'', ''Bob''] [''Gold'', ''Silver'']) \<noteq> []
   \<and> 1 \<le> maxReelItems (engine 5 False [''Alice'', ''Bob''] [''Gold'', ''Silver''])
   \<and> fst (spin (constant_rnd (1 / 2)) (engine 5 False [''Alice'', ''Bob''] [''Gold'', ''Silver'']))
   \<and> \<not> havePreviousWinner (engine 5 False [''Alice'', ''Bob''] [''Gold'', ''Silver''])
   \<and> length (populated (constant_rnd (1 / 2))
         (engine 5 False [''Alice'', ''Bob''] [''Gold'', ''Silver''])) = 5
   \<and> set (populated (constant_rnd (1 / 2))
         (engine 5 False [''Alice'', ''Bob''] [''Gold'', ''Silver'']))
       \<subseteq> Some ` set [''Alice'', ''Bob'']
   \<and> havePreviousWinner (snd (spin (constant_rnd (1 / 2))
         (engine 5 False [''Alice'', ''Bob''] [''Gold'', ''Silver''])))
   \<and> length (populated (constant_rnd (1 / 2)) (snd (spin (constant_rnd (1 / 2))
         (engine 5 False [''Alice'', ''Bob''] [''Gold'', ''Silver''])))) = 4"
proof -
  let ?r = "constant_rnd (1 / 2)"
  let ?s = "engine 5 False [''Alice'', ''Bob''] [''Gold'', ''Silver'']"
  let ?t = "snd (spin ?r ?s)"
  have s: "nameList ?s \<noteq> []" "length (nameList ?s) < 2 ^ 31" "1 \<le> maxReelItems ?s"
      "fst (spin ?r ?s)" "\<not> havePreviousWinner ?s" "nameList ?s = [''Alice'', ''Bob'']"
      "maxReelItems ?s = 5"
    by (simp_all add: engine5_spin) (simp_all add: engine5)
  have t: "nameList ?t \<noteq> []" "length (nameList ?t) < 2 ^ 31" "1 \<le> maxReelItems ?t"
      "fst (spin ?r ?t)" "havePreviousWinner ?t" "maxReelItems ?t = 5"
    by (simp_all add: engine5_spin_spin) (simp_all add: engine5_spin)
  have a: "length (populated ?r ?s) = 5 \<and> set (populated ?r ?s) \<subseteq> Some ` set [''Alice'', ''Bob'']"
    using spin_populates_reel[OF rnd_ok_half s(1-4)] s(5-7) by auto
  have b: "length (populated ?r ?t) = 4"
    using spin_populates_reel[OF rnd_ok_half t(1-4)] t(5,6) by auto
  show ?thesis using rnd_ok_half s(1,3,4,5) t(5) a b by blast
qed

subsection \<open>The shuffle\<close>

text \<open>
  C3: \<open>shuffleNames\<close> returns a new list with exactly the elements of its input, each as
  often as in the input, and so of the same length; the empty input gives the empty
  output.  The input is a value that the loop only reads.  The list is shorter than
  \<open>2^31\<close>, the range in which \<open>| 0\<close> does not wrap.
\<close>

theorem shuffleNames_permutation:
  assumes "rnd_ok rnd" and "length array < 2 ^ 31"
  shows "mset (shuffleNames rnd array) = image_mset Some (mset array)
       \<and> length (shuffleNames rnd array) = length array
       \<and> shuffleNames rnd ([] :: 'a list) = []"
proof -
  obtain ys where ys: "shuffleNames rnd array = map Some ys" "mset ys = mset array"
    using shuffleNames_perm[OF assms] by blast
  have "length ys = length array" using ys(2) by (rule mset_eq_length)
  then show ?thesis using ys by (simp add: shuffleNames_Nil)
qed

theorem shuffleNames_permutation_witness:
  "rnd_ok (constant_rnd (1 / 2)) \<and> length [''a'', ''b'', ''a''] < (2::nat) ^ 31
   \<and> shuffleNames (constant_rnd (1 / 2)) [''a'', ''b'', ''a''] = [Some ''b'', Some ''a'', Some ''a'']
   \<and> mset (shuffleNames (constant_rnd (1 / 2)) [''a'', ''b'', ''a''])
       = image_mset Some (mset [''a'', ''b'', ''a''])"
proof -
  have h1: "rnd_ok (constant_rnd (1 / 2))" by (simp add: rnd_ok_def constant_rnd_def)
  have h2: "length [''a'', ''b'', ''a''] < (2::nat) ^ 31" by simp
  have v: "shuffleNames (constant_rnd (1 / 2)) [''a'', ''b'', ''a''] = [Some ''b'', Some ''a'', Some ''a'']"
    by (simp add: shuffle_eval constant_rnd_def)
  from shuffleNames_permutation[OF h1 h2] h1 h2 v show ?thesis by blast
qed

subsection \<open>Removal of the winner\<close>

text \<open>
  C4: with removal enabled, a successful spin is claimed to remove from the name list one
  occurrence of the logged winner.  In the second spin of the engine with one reel item
  (see C1, the same defect) the reel is empty, no name equals the undefined winner,
  \<open>findIndex\<close> returns \<open>-1\<close>, and \<open>splice(-1, 1)\<close> removes the last name: Alice leaves
  the list, while the entry logged by that spin is \<open>Silver - undefined\<close>.
\<close>

theorem single_item_reel_removes_unlogged_name:
  "shouldRemoveWinner (snd (spin (constant_rnd (1 / 2))
       (engine 1 True [''Alice'', ''Bob''] [''Gold'', ''Silver''])))
   \<and> nameList (snd (spin (constant_rnd (1 / 2))
       (engine 1 True [''Alice'', ''Bob''] [''Gold'', ''Silver'']))) = [''Alice'']
   \<and> nameList (snd (spin (constant_rnd (1 / 2)) (snd (spin (constant_rnd (1 / 2))
       (engine 1 True [''Alice'', ''Bob''] [''Gold'', ''Silver''])))))
       = []
   \<and> last (winnerList (snd (spin (constant_rnd (1 / 2)) (snd (spin (constant_rnd (1 / 2))
       (engine 1 True [''Alice'', ''Bob''] [''Gold'', ''Silver'']))))))
       = ''Silver - undefined''"
  by (simp add: engine1_spin_spin) (simp add: engine1_spin)

subsection \<open>The empty name list\<close>

text \<open>
  C5: on an empty name list \<open>spin\<close> returns false and leaves the engine as it was: the
  names, the prizes, the winner log, the flag of the previous winner and the state of the
  animation are unchanged, and no callback is added to the log of the callbacks.
\<close>

theorem spin_on_empty_name_list_fails: "nameList s = [] \<Longrightarrow> spin rnd s = (False, s)"
  by (simp add: spin_def spin_start_def)

theorem spin_on_empty_name_list_fails_witness:
  "nameList (engine 5 True [] [''Gold'']) = []
   \<and> spin (constant_rnd (1 / 2)) (engine 5 True [] [''Gold'']) = (False, engine 5 True [] [''Gold''])"
proof -
  have h: "nameList (engine 5 True [] [''Gold'']) = []" by (simp add: engine_eval)
  from spin_on_empty_name_list_fails[OF h] h show ?thesis by blast
qed

subsection \<open>\<open>forceStopSpin\<close>\<close>

text \<open>
  C6, as claimed: outside a running spin \<open>forceStopSpin\<close> fires no callback and changes
  nothing.  It does both on an engine that has just been constructed: the animation is
  idle, and the call sets the flag of the previous winner, finishes the animation and
  calls \<open>onSpinEnd\<close>.
\<close>

theorem forceStopSpin_idle_counterexample:
  "Slot_constructor (host_config 5 True) = Inr (constructed (host_config 5 True))
   \<and> reelAnimation (constructed (host_config 5 True)) = Some Idle
   \<and> \<not> havePreviousWinner (constructed (host_config 5 True))
   \<and> hookLog (constructed (host_config 5 True)) = []
   \<and> forceStopSpin (constructed (host_config 5 True)) =
        Inr (True, (constructed (host_config 5 True))
                     \<lparr>havePreviousWinner := True, reelAnimation := Some Finished,
                      hookLog := [SpinEnd]\<rparr>)
   \<and> forceStopSpin (constructed (host_config 5 True)) \<noteq>
        Inr (True, constructed (host_config 5 True))"
  by (simp add: forceStopSpin_def call_hook_def Slot_constructor_def animate_def constructed_def
      host_config_def collapse_reel_def js_slice0_def)

text \<open>
  C6, as the code has it: \<open>forceStopSpin\<close> does not look at the state of the spin.  On
  every engine with a reel container it returns true, finishes the animation, removes all
  reel items but the last, sets the flag of the previous winner and calls \<open>onSpinEnd\<close>
  once (when that callback is configured); names, prizes and winner log are unchanged.
  In particular a running animation becomes finished, with one call of the callback.
\<close>

theorem forceStopSpin_always_settles:
  assumes "reelContainer s = Some children"
  shows "forceStopSpin s =
     Inr (True, s\<lparr>reelAnimation := map_option (\<lambda>anim. Finished) (reelAnimation s),
                  reelContainer := Some (collapse_reel children),
                  havePreviousWinner := True,
                  hookLog := hookLog s @ (if onSpinEnd s then [SpinEnd] else [])\<rparr>)"
  using assms by (simp add: forceStopSpin_def call_hook_def)

theorem forceStopSpin_always_settles_witness:
  "reelAnimation (state_of (spin_start (constant_rnd (1 / 2))
       (engine 5 False [''Alice'', ''Bob''] [''Gold'', ''Silver'']))) = Some Running
   \<and> reelContainer (state_of (spin_start (constant_rnd (1 / 2))
       (engine 5 False [''Alice'', ''Bob''] [''Gold'', ''Silver''])))
       = Some [''Bob'', ''Alice'', ''Bob'', ''Alice'', ''Bob'']
   \<and> forceStopSpin (state_of (spin_start (constant_rnd (1 / 2))
       (engine 5 False [''Alice'', ''Bob''] [''Gold'', ''Silver'']))) =
      Inr (True,
        \<lparr> nameList = [''Alice'', ''Bob''], prizeList = [''Silver''],
          winnerList = [''Gold - Bob''],
          randomNames = [Some ''Bob'', Some ''Alice'', Some ''Bob'', Some ''Alice'', Some ''Bob''],
          havePreviousWinner = True, reelContainer = Some [''Bob''], maxReelItems = 5,
          shouldRemoveWinner = False, reelAnimation = Some Finished, onSpinStart = True,
          onSpinEnd = True, onNameListChanged = True,
          hookLog = [NameListChanged, SpinStart, SpinEnd] \<rparr>)"
proof -
  let ?s = "state_of (spin_start (constant_rnd (1 / 2))
       (engine 5 False [''Alice'', ''Bob''] [''Gold'', ''Silver'']))"
  have h: "reelContainer ?s = Some [''Bob'', ''Alice'', ''Bob'', ''Alice'', ''Bob'']"
    by (simp add: engine5_spin_start)
  have r: "reelAnimation ?s = Some Running" by (simp add: engine5_spin_start)
  from forceStopSpin_always_settles[OF h] h r show ?thesis
    by (simp add: engine5_spin_start collapse_reel_def js_slice0_def)
qed

subsection \<open>The constructor\<close>

text \<open>
  C7, as claimed: a configuration with \<open>maxReelItems < 1\<close> is rejected when the engine is
  constructed.  The constructor itself has no check: with \<open>maxReelItems = 0\<close> the
  animation is given the duration \<open>0\<close>, nothing is raised, and the constructor returns an
  engine that holds \<open>0\<close>.
\<close>

theorem constructor_zero_reel_items_counterexample:
  "Slot_constructor (host_config 0 True) =
     Inr \<lparr> nameList = [], prizeList = [], winnerList = [], randomNames = [],
           havePreviousWinner = False, reelContainer = Some [], maxReelItems = 0,
           shouldRemoveWinner = True, reelAnimation = Some Idle, onSpinStart = True,
           onSpinEnd = True, onNameListChanged = True, hookLog = [] \<rparr>"
  by (simp add: Slot_constructor_def animate_def constructed_def host_config_def)

text \<open>
  C7, as the code has it: the constructor does not validate \<open>maxReelItems\<close>.  The
  construction is rejected, with the TypeError of \<open>animate\<close>, exactly when a reel
  container exists and \<open>maxReelItems\<close> (30 when none is configured) is negative, which
  makes the duration \<open>maxReelItems * 50\<close> of the animation negative.  Every other
  configuration is accepted, \<open>maxReelItems = 0\<close> and a negative \<open>maxReelItems\<close> without
  a reel container among them; the engine then holds the configured value unchanged,
  its lists are empty and no previous winner is displayed.
\<close>

theorem constructor_rejects_negative_only:
  "Slot_constructor c =
     (if cfg_reelContainer c \<noteq> None \<and>
         (case cfg_maxReelItems c of None \<Rightarrow> 30 | Some m \<Rightarrow> m) < 0
      then Inl TypeError else Inr (constructed c))
   \<and> maxReelItems (constructed c) = (case cfg_maxReelItems c of None \<Rightarrow> 30 | Some m \<Rightarrow> m)
   \<and> nameList (constructed c) = [] \<and> prizeList (constructed c) = []
   \<and> winnerList (constructed c) = [] \<and> \<not> havePreviousWinner (constructed c)
   \<and> hookLog (constructed c) = []"
proof -
  have "Slot_constructor c =
     (if cfg_reelContainer c \<noteq> None \<and>
         (case cfg_maxReelItems c of None \<Rightarrow> 30 | Some m \<Rightarrow> m) < 0
      then Inl TypeError else Inr (constructed c))"
  proof (cases "cfg_reelContainer c")
    case None
    then show ?thesis by (simp add: Slot_constructor_def)
  next
    case (Some children)
    then show ?thesis by (simp add: Slot_constructor_def animate_def constructed_def)
  qed
  then show ?thesis by (simp add: constructed_def)
qed

theorem constructor_rejects_negative_only_witness:
  "Slot_constructor (host_config (- 1) True) = Inl TypeError
   \<and> Slot_constructor (host_config 0 True) = Inr (constructed (host_config 0 True))
   \<and> maxReelItems (constructed (host_config 0 True)) = 0
   \<and> Slot_constructor ((host_config (- 1) True)\<lparr>cfg_reelContainer := None\<rparr>)
       = Inr (constructed ((host_config (- 1) True)\<lparr>cfg_reelContainer := None\<rparr>))
   \<and> maxReelItems (constructed ((host_config (- 1) True)\<lparr>cfg_reelContainer := None\<rparr>)) = - 1"
proof -
  have a: "Slot_constructor (host_config (- 1) True) = Inl TypeError"
    using constructor_rejects_negative_only[of "host_config (- 1) True"]
    by (simp add: host_config_def)
  have b: "Slot_constructor (host_config 0 True) = Inr (constructed (host_config 0 True))
      \<and> maxReelItems (constructed (host_config 0 True)) = 0"
    using constructor_rejects_negative_only[of "host_config 0 True"]
    by (simp add: host_config_def)
  have c: "Slot_constructor ((host_config (- 1) True)\<lparr>cfg_reelContainer := None\<rparr>)
       = Inr (constructed ((host_config (- 1) True)\<lparr>cfg_reelContainer := None\<rparr>))
      \<and> maxReelItems (constructed ((host_config (- 1) True)\<lparr>cfg_reelContainer := None\<rparr>)) = - 1"
    using constructor_rejects_negative_only[of "(host_config (- 1) True)\<lparr>cfg_reelContainer := None\<rparr>"]
    by (simp add: host_config_def)
  show ?thesis using a b c by blast
qed

subsection \<open>The prize queue\<close>

text \<open>
  C8: a successful spin removes the head of the prize queue, whatever the setting of the
  removal of winners; the queue is unchanged only when it was empty.  The entry the spin
  appends to the winner log starts with the head the queue had before the spin, or with
  \<open>-------\<close> when the queue was empty, followed by \<open>'' - ''\<close> and the winner.
\<close>

theorem spin_consumes_prize:
  assumes "fst (spin rnd s)"
  shows "prizeList (snd (spin rnd s)) = drop 1 (prizeList s)
       \<and> (prizeList (snd (spin rnd s)) = prizeList s \<longleftrightarrow> prizeList s = [])
       \<and> winnerList (snd (spin rnd s)) =
           winnerList s @
             [(case prizeList s of [] \<Rightarrow> ''-------'' | p # ps \<Rightarrow> p) @ '' - '' @
              to_str (uarr_get (populated rnd s) (int (length (populated rnd s)) - 1))]"
proof -
  have 1: "prizeList (snd (spin rnd s)) = drop 1 (prizeList s)" using spin_prizeList[OF assms] .
  have 2: "drop 1 (prizeList s) = prizeList s \<longleftrightarrow> prizeList s = []"
    by (cases "prizeList s") (auto dest: arg_cong[where f = length])
  show ?thesis using 1 2 spin_winnerList[OF assms] by (simp add: getActivePrizeToDraw_case)
qed

theorem spin_consumes_prize_witness:
  "fst (spin (constant_rnd (1 / 2)) (engine 5 False [''Alice'', ''Bob''] [''Gold'', ''Silver'']))
   \<and> prizeList (snd (spin (constant_rnd (1 / 2))
         (engine 5 False [''Alice'', ''Bob''] [''Gold'', ''Silver'']))) = [''Silver'']
   \<and> winnerList (snd (spin (constant_rnd (1 / 2))
         (engine 5 False [''Alice'', ''Bob''] [''Gold'', ''Silver'']))) = [''Gold - Bob'']
   \<and> fst (spin (constant_rnd (1 / 2)) (engine 0 True [''Alice''] []))
   \<and> prizeList (snd (spin (constant_rnd (1 / 2)) (engine 0 True [''Alice''] []))) = []
   \<and> winnerList (snd (spin (constant_rnd (1 / 2)) (engine 0 True [''Alice''] [])))
       = [''------- - undefined'']"
proof -
  let ?r = "constant_rnd (1 / 2)"
  let ?s = "engine 5 False [''Alice'', ''Bob''] [''Gold'', ''Silver'']"
  let ?z = "engine 0 True [''Alice''] []"
  have hs: "fst (spin ?r ?s)" by (simp add: engine5_spin)
  have hz: "fst (spin ?r ?z)" by (simp add: engine0_spin)
  have ps: "populated ?r ?s = [Some ''Bob'', Some ''Alice'', Some ''Bob'', Some ''Alice'', Some ''Bob'']"
    by (simp add: populated_def engine5_spin)
  have pz: "populated ?r ?z = []" by (simp add: populated_def engine0_spin)
  have qs: "prizeList ?s = [''Gold'', ''Silver'']" "winnerList ?s = []" by (simp_all add: engine5)
  have qz: "prizeList ?z = []" "winnerList ?z = []" by (simp_all add: engine0)
  have a: "prizeList (snd (spin ?r ?s)) = [''Silver''] \<and> winnerList (snd (spin ?r ?s)) = [''Gold - Bob'']"
    using spin_consumes_prize[OF hs] by (simp add: ps qs to_str_def uarr_get_def)
  have b: "prizeList (snd (spin ?r ?z)) = [] \<and> winnerList (snd (spin ?r ?z)) = [''------- - undefined'']"
    using spin_consumes_prize[OF hz] by (simp add: pz qz to_str_def uarr_get_def)
  show ?thesis using hs hz a b by blast
qed

subsection \<open>The shuffle and the reference shuffle\<close>

text \<open>
  C9, as claimed: on the same random numbers \<open>shuffleNames\<close> returns what the reference
  shuffle returns.  On two elements, with random numbers that are all \<open>0\<close>, the reference
  swaps the two and \<open>shuffleNames\<close> returns them in their order.
\<close>

theorem shuffleNames_reference_counterexample:
  "fisher_yates (constant_rnd 0) [''a'', ''b''] = [''b'', ''a'']
   \<and> shuffleNames (constant_rnd 0) [''a'', ''b''] = [Some ''a'', Some ''b'']
   \<and> shuffleNames (constant_rnd 0) [''a'', ''b'']
       \<noteq> map Some (fisher_yates (constant_rnd 0) [''a'', ''b''])"
proof -
  have f: "fisher_yates (constant_rnd 0) [''a'', ''b''] = [''b'', ''a'']"
    by (simp add: fisher_yates_def draw_def constant_rnd_def swap_def numeral_2_eq_2)
  have g: "shuffleNames (constant_rnd 0) [''a'', ''b''] = [Some ''a'', Some ''b'']"
    by (simp add: shuffle_eval constant_rnd_def)
  show ?thesis using f g by simp
qed

text \<open>
  C9, as the code has it: \<open>shuffleNames\<close> makes the draws and the swaps of the reference
  shuffle, on a copy of the indices, and returns the selected elements in the order of
  their selection, while the reference leaves the element selected first at the last
  index.  On the same random numbers the list returned is the reverse of the list the
  reference returns.
\<close>

theorem shuffleNames_is_reversed_reference:
  assumes "rnd_ok rnd" and "length array < 2 ^ 31"
  shows "shuffleNames rnd array = map Some (rev (fisher_yates rnd array))"
proof -
  have "shuffle_loop rnd array (map Some [0..<length array]) (map Some []) 0 (length array) =
        map Some ([] @ rev (take (length array)
           (fisher_yates_from rnd (map ((!) array) [0..<length array]) 0 (length array))))"
    by (rule shuffle_loop_fisher_yates[OF assms]) simp_all
  then show ?thesis
    by (simp add: shuffleNames_def fisher_yates_def map_nth fisher_yates_from_length)
qed

theorem shuffleNames_is_reversed_reference_witness:
  "rnd_ok (constant_rnd (1 / 2)) \<and> length [''a'', ''b'', ''c''] < (2::nat) ^ 31
   \<and> fisher_yates (constant_rnd (1 / 2)) [''a'', ''b'', ''c''] = [''a'', ''c'', ''b'']
   \<and> shuffleNames (constant_rnd (1 / 2)) [''a'', ''b'', ''c'']
       = [Some ''b'', Some ''c'', Some ''a'']"
proof -
  have h: "length [''a'', ''b'', ''c''] < (2::nat) ^ 31" by simp
  have f: "fisher_yates (constant_rnd (1 / 2)) [''a'', ''b'', ''c''] = [''a'', ''c'', ''b'']"
    by (simp add: fisher_yates_def draw_def constant_rnd_def swap_def numeral_3_eq_3)
  from shuffleNames_is_reversed_reference[OF rnd_ok_half h] f rnd_ok_half h
  show ?thesis by simp
qed

subsection \<open>The access to the winner\<close>

text \<open>
  C10, as claimed: when no previous winner is displayed the reel of a spin on a non-empty
  name list is not empty.  An engine configured with \<open>maxReelItems = 0\<close> has displayed
  no winner before its first spin, and the reel of that spin is empty; the entry logged
  names no winner.
\<close>

theorem reel_empty_without_previous_winner_counterexample:
  "Slot_constructor (host_config 0 True) = Inr (constructed (host_config 0 True))
   \<and> engine 0 True [''Alice''] [] =
       set_prizes [] (set_names [''Alice''] (constructed (host_config 0 True)))
   \<and> nameList (engine 0 True [''Alice''] []) \<noteq> []
   \<and> \<not> havePreviousWinner (engine 0 True [''Alice''] [])
   \<and> fst (spin (constant_rnd (1 / 2)) (engine 0 True [''Alice''] []))
   \<and> populated (constant_rnd (1 / 2)) (engine 0 True [''Alice''] []) = []
   \<and> winnerList (snd (spin (constant_rnd (1 / 2)) (engine 0 True [''Alice''] [])))
       = [''------- - undefined'']"
proof -
  have c: "Slot_constructor (host_config 0 True) = Inr (constructed (host_config 0 True))"
    by (rule host_constructed) simp
  have e: "engine 0 True [''Alice''] [] =
       set_prizes [] (set_names [''Alice''] (constructed (host_config 0 True)))"
    by (simp add: engine_def)
  have r: "nameList (engine 0 True [''Alice''] []) \<noteq> []
   \<and> \<not> havePreviousWinner (engine 0 True [''Alice''] [])
   \<and> fst (spin (constant_rnd (1 / 2)) (engine 0 True [''Alice''] []))
   \<and> populated (constant_rnd (1 / 2)) (engine 0 True [''Alice''] []) = []
   \<and> winnerList (snd (spin (constant_rnd (1 / 2)) (engine 0 True [''Alice''] [])))
       = [''------- - undefined'']"
    by (simp add: populated_def engine0_spin) (simp add: engine0)
  show ?thesis using c e r by blast
qed

text \<open>
  C10, for \<open>maxReelItems \<ge> 1\<close>: in a successful spin on a non-empty name list the reel is
  empty exactly when \<open>maxReelItems = 1\<close> and a previous winner is displayed.  When
  \<open>maxReelItems \<ge> 2\<close>, or no previous winner is displayed, the reel is not empty, the
  access to its last item is inside its bounds and yields a name of the list before the
  spin, and that name is the winner logged.
\<close>

theorem spin_reel_empty_iff:
  assumes "rnd_ok rnd" and "nameList s \<noteq> []" and "length (nameList s) < 2 ^ 31"
    and "1 \<le> maxReelItems s" and "fst (spin rnd s)"
  shows "(populated rnd s = [] \<longleftrightarrow> maxReelItems s = 1 \<and> havePreviousWinner s)
       \<and> (2 \<le> maxReelItems s \<or> \<not> havePreviousWinner s \<longrightarrow>
            populated rnd s \<noteq> [] \<and>
            (\<exists>w\<in>set (nameList s).
               uarr_get (populated rnd s) (int (length (populated rnd s)) - 1) = Some w \<and>
               winnerList (snd (spin rnd s)) = winnerList s @ [getActivePrizeToDraw s @ '' - '' @ w]))"
proof -
  have len: "length (populated rnd s) = nat (maxReelItems s - (if havePreviousWinner s then 1 else 0))"
    using populated_take(2)[OF assms] .
  have a: "populated rnd s = [] \<longleftrightarrow> maxReelItems s = 1 \<and> havePreviousWinner s"
  proof -
    have "populated rnd s = [] \<longleftrightarrow> length (populated rnd s) = 0" by simp
    also have "\<dots> \<longleftrightarrow> maxReelItems s = 1 \<and> havePreviousWinner s"
      using len assms(4) by (auto split: if_splits)
    finally show ?thesis .
  qed
  have b: "populated rnd s \<noteq> [] \<and>
            (\<exists>w\<in>set (nameList s).
               uarr_get (populated rnd s) (int (length (populated rnd s)) - 1) = Some w \<and>
               winnerList (snd (spin rnd s)) = winnerList s @ [getActivePrizeToDraw s @ '' - '' @ w])"
    if c: "2 \<le> maxReelItems s \<or> \<not> havePreviousWinner s"
  proof -
    have m: "1 \<le> maxReelItems s - (if havePreviousWinner s then 1 else 0)"
      using c assms(4) by auto
    have ne: "populated rnd s \<noteq> []" using winner_genuine(1)[OF assms(1-3) m assms(5)] .
    obtain w where w: "w \<in> set (nameList s)" "last (populated rnd s) = Some w"
        "winnerList (snd (spin rnd s)) = winnerList s @ [getActivePrizeToDraw s @ '' - '' @ w]"
      using spin_logs_winner[OF assms(1-3) m assms(5)] by blast
    have "uarr_get (populated rnd s) (int (length (populated rnd s)) - 1) = Some w"
      using uarr_get_last[OF ne] w(2) by simp
    then show ?thesis using ne w by blast
  qed
  show ?thesis using a b by blast
qed

theorem spin_reel_empty_iff_witness:
  "rnd_ok (constant_rnd (1 / 2))
   \<and> nameList (engine 5 False [''Alice'', ''Bob''] [''Gold'', ''Silver'']) \<noteq> []
   \<and> 2 \<le> maxReelItems (engine 5 False [''Alice'', ''Bob''] [''Gold'', ''Silver''])
   \<and> fst (spin (constant_rnd (1 / 2)) (engine 5 False [''Alice'', ''Bob''] [''Gold'', ''Silver'']))
   \<and> populated (constant_rnd (1 / 2))
        (engine 5 False [''Alice'', ''Bob''] [''Gold'', ''Silver'']) \<noteq> []
   \<and> (\<exists>w\<in>set [''Alice'', ''Bob''].
         winnerList (snd (spin (constant_rnd (1 / 2))
           (engine 5 False [''Alice'', ''Bob''] [''Gold'', ''Silver''])))
         = [''Gold - '' @ w])
   \<and> maxReelItems (snd (spin (constant_rnd (1 / 2))
        (engine 1 True [''Alice'', ''Bob''] [''Gold'', ''Silver'']))) = 1
   \<and> havePreviousWinner (snd (spin (constant_rnd (1 / 2))
        (engine 1 True [''Alice'', ''Bob''] [''Gold'', ''Silver''])))
   \<and> populated (constant_rnd (1 / 2)) (snd (spin (constant_rnd (1 / 2))
        (engine 1 True [''Alice'', ''Bob''] [''Gold'', ''Silver'']))) = []"
proof -
  let ?r = "constant_rnd (1 / 2)"
  let ?s = "engine 5 False [''Alice'', ''Bob''] [''Gold'', ''Silver'']"
  let ?t = "snd (spin ?r (engine 1 True [''Alice'', ''Bob''] [''Gold'', ''Silver'']))"
  have s: "nameList ?s \<noteq> []" "length (nameList ?s) < 2 ^ 31" "1 \<le> maxReelItems ?s"
      "fst (spin ?r ?s)" "2 \<le> maxReelItems ?s" "nameList ?s = [''Alice'', ''Bob'']"
      "winnerList ?s = []" "getActivePrizeToDraw ?s = ''Gold''"
    by (simp_all add: engine5_spin getActivePrizeToDraw_def) (simp_all add: engine5)
  have t: "nameList ?t \<noteq> []" "length (nameList ?t) < 2 ^ 31" "1 \<le> maxReelItems ?t"
      "fst (spin ?r ?t)" "maxReelItems ?t = 1" "havePreviousWinner ?t"
    by (simp_all add: engine1_spin_spin) (simp_all add: engine1_spin)
  have a: "populated ?r ?s \<noteq> [] \<and>
      (\<exists>w\<in>set [''Alice'', ''Bob'']. winnerList (snd (spin ?r ?s)) = [''Gold - '' @ w])"
    using spin_reel_empty_iff[OF rnd_ok_half s(1-4)] s(5-8) by auto
  have b: "populated ?r ?t = []"
    using spin_reel_empty_iff[OF rnd_ok_half t(1-4)] t(5,6) by blast
  show ?thesis using rnd_ok_half s(1,4,5) t(5,6) a b by blast
qed

end
